theory Spec2Isabelle
  imports Main "HOL-Library.Word"
begin

section \<open>JavaScript strings\<close>

text \<open>
  A JavaScript string is a sequence of UTF-16 code units. The functions of
  \<^verbatim>\<open>notesFormatter.ts\<close> look at a string only through \<^verbatim>\<open>split\<close>,
  \<^verbatim>\<open>join\<close>, \<^verbatim>\<open>trim\<close>, concatenation and equality, all of which work
  code unit by code unit, so a string is a list of 16-bit words.
  \<open>js\<close> embeds an ASCII literal.
\<close>

type_synonym jschar = "16 word"
type_synonym jsstring = "jschar list"

definition js :: "string \<Rightarrow> jsstring" where
  "js s = map of_char s"

definition nl :: jschar where
  "nl = 0x0A"

definition comma :: jschar where
  "comma = 0x2C"

definition space :: jschar where
  "space = 0x20"

text \<open>
  \<^verbatim>\<open>String.prototype.trim\<close> removes the code units of the ECMAScript productions
  WhiteSpace (TAB, VT, FF, SP, NBSP, ZWNBSP and the Unicode category Zs) and
  LineTerminator (LF, CR, LS, PS) from both ends. All of them lie in the Basic
  Multilingual Plane, so each is one code unit.
\<close>

definition is_ws :: "jschar \<Rightarrow> bool" where
  "is_ws c = (c \<in> set [0x0009, 0x000A, 0x000B, 0x000C, 0x000D, 0x0020, 0x00A0, 0x1680,
     0x2000, 0x2001, 0x2002, 0x2003, 0x2004, 0x2005, 0x2006, 0x2007, 0x2008, 0x2009, 0x200A,
     0x2028, 0x2029, 0x202F, 0x205F, 0x3000, 0xFEFF])"

definition trim :: "jsstring \<Rightarrow> jsstring" where
  "trim s = rev (dropWhile is_ws (rev (dropWhile is_ws s)))"

text \<open>
  \<^verbatim>\<open>s.split(d)\<close> for a one-unit separator: the pieces between the occurrences of
  \<open>d\<close>; the empty string gives one empty piece.
\<close>

fun split_on :: "'a \<Rightarrow> 'a list \<Rightarrow> 'a list list" where
  "split_on d [] = [[]]"
| "split_on d (x # xs) =
     (if x = d then [] # split_on d xs
      else (case split_on d xs of [] \<Rightarrow> [[x]] | p # ps \<Rightarrow> (x # p) # ps))"

text \<open>\<^verbatim>\<open>parts.join(sep)\<close>.\<close>

fun join :: "'a list \<Rightarrow> 'a list list \<Rightarrow> 'a list" where
  "join sep [] = []"
| "join sep [p] = p"
| "join sep (p # q # ps) = p @ sep @ join sep (q # ps)"

text \<open>
  \<^verbatim>\<open>[...new Set(xs)]\<close>: a \<^verbatim>\<open>Set\<close> keeps insertion order and ignores the
  insertion of an element it already holds, so the first occurrence of each
  element stays, in order.
\<close>

definition set_add :: "'a list \<Rightarrow> 'a \<Rightarrow> 'a list" where
  "set_add acc x = (if x \<in> set acc then acc else acc @ [x])"

definition new_Set :: "'a list \<Rightarrow> 'a list" where
  "new_Set xs = foldl set_add [] xs"


section \<open>The note codec\<close>

text \<open>
  \<^verbatim>\<open>interface NoteComponents\<close>: three optional fields. \<open>None\<close> stands for a
  field that is missing or \<^verbatim>\<open>undefined\<close>.
\<close>

record NoteComponents =
  content :: "jsstring option"
  critical :: "jsstring option"
  links :: "jsstring list option"

definition empty_components :: NoteComponents where
  "empty_components = \<lparr>content = None, critical = None, links = None\<rparr>"

definition hdr_critical :: jsstring where
  "hdr_critical = js ''Critical:''"

definition hdr_related :: jsstring where
  "hdr_related = js ''Related:''"

text \<open>JavaScript truthiness of an optional string: set and not empty.\<close>

fun truthy :: "'a list option \<Rightarrow> bool" where
  "truthy None = False"
| "truthy (Some s) = (s \<noteq> [])"

text \<open>
  The \<^verbatim>\<open>parts\<close> array of \<^verbatim>\<open>formatNotes\<close> after its three conditional pushes:
  the content and the critical text when truthy, the links when
  \<^verbatim>\<open>links?.length\<close> is truthy.
\<close>

definition format_parts :: "NoteComponents \<Rightarrow> jsstring list" where
  "format_parts components =
     (case content components of
        None \<Rightarrow> []
      | Some c \<Rightarrow> if c \<noteq> [] then [c] else [])
     @ (case critical components of
          None \<Rightarrow> []
        | Some k \<Rightarrow> if k \<noteq> [] then [hdr_critical @ [nl] @ k] else [])
     @ (case links components of
          None \<Rightarrow> []
        | Some ls \<Rightarrow> if length ls \<noteq> 0 then [hdr_related @ [nl] @ join [comma, space] ls] else [])"

definition formatNotes :: "NoteComponents \<Rightarrow> jsstring" where
  "formatNotes components = trim (join [nl, nl] (format_parts components))"

text \<open>
  The variables the loop of \<^verbatim>\<open>parseNotes\<close> updates (\<^verbatim>\<open>components\<close>,
  \<^verbatim>\<open>contentLines\<close>, \<^verbatim>\<open>currentSection\<close>) and their values before it.
\<close>

datatype note_section = Content | Critical | Related

record parse_state =
  components :: NoteComponents
  contentLines :: "jsstring list"
  currentSection :: note_section

definition parse_init :: parse_state where
  "parse_init = \<lparr>components = empty_components, contentLines = [], currentSection = Content\<rparr>"

text \<open>One iteration of the \<^verbatim>\<open>for (const line of lines)\<close> loop of \<^verbatim>\<open>parseNotes\<close>.\<close>

definition parse_line :: "parse_state \<Rightarrow> jsstring \<Rightarrow> parse_state" where
  "parse_line st line =
     (let trimmed = trim line in
      if trimmed = hdr_critical then st\<lparr>currentSection := Critical\<rparr>
      else if trimmed = hdr_related then st\<lparr>currentSection := Related\<rparr>
      else if trimmed = [] then st
      else (case currentSection st of
              Critical \<Rightarrow>
                st\<lparr>components := (components st)\<lparr>critical := Some trimmed\<rparr>,
                   currentSection := Content\<rparr>
            | Related \<Rightarrow>
                st\<lparr>components := (components st)\<lparr>links :=
                     Some (filter (\<lambda>id. id \<noteq> []) (map trim (split_on comma trimmed)))\<rparr>,
                   currentSection := Content\<rparr>
            | Content \<Rightarrow>
                st\<lparr>contentLines := contentLines st @ [trimmed]\<rparr>))"

definition parse_lines :: "parse_state \<Rightarrow> jsstring list \<Rightarrow> parse_state" where
  "parse_lines st lines = foldl parse_line st lines"

definition parse_finish :: "parse_state \<Rightarrow> NoteComponents" where
  "parse_finish st =
     (if length (contentLines st) > 0
      then (components st)\<lparr>content := Some (join [nl] (contentLines st))\<rparr>
      else components st)"

definition parseNotes :: "jsstring option \<Rightarrow> NoteComponents" where
  "parseNotes notes =
     (if \<not> truthy notes then empty_components
      else parse_finish (parse_lines parse_init (split_on nl (the notes))))"

text \<open>\<^verbatim>\<open>a ?? b\<close>: \<open>b\<close> only when \<open>a\<close> is \<^verbatim>\<open>undefined\<close>.\<close>

fun nullish :: "'a option \<Rightarrow> 'a option \<Rightarrow> 'a option" where
  "nullish None b = b"
| "nullish (Some a) b = Some a"

fun or_empty :: "'a list option \<Rightarrow> 'a list" where
  "or_empty None = []"
| "or_empty (Some xs) = xs"

text \<open>
  \<^verbatim>\<open>mergeNotes\<close>; \<^verbatim>\<open>Partial<NoteComponents>\<close> is the same record, every
  field of which is optional already.
\<close>

definition mergeNotes :: "NoteComponents \<Rightarrow> NoteComponents \<Rightarrow> NoteComponents" where
  "mergeNotes existing updates =
     (let merged_content =
            (if truthy (content updates) \<and> truthy (content existing)
             then Some (the (content existing) @ [nl, nl] @ the (content updates))
             else nullish (content updates) (content existing));
          merged_critical = nullish (critical updates) (critical existing);
          allLinks = or_empty (links existing) @ or_empty (links updates)
      in \<lparr>content = merged_content, critical = merged_critical,
          links = (if length allLinks > 0 then Some (new_Set allLinks) else None)\<rparr>)"

definition addLink :: "jsstring option \<Rightarrow> jsstring \<Rightarrow> jsstring" where
  "addLink notes linkId =
     (let components = parseNotes notes
      in formatNotes (components\<lparr>links := Some (new_Set (or_empty (links components) @ [linkId]))\<rparr>))"

definition setCritical :: "jsstring option \<Rightarrow> jsstring \<Rightarrow> jsstring" where
  "setCritical notes crit = formatNotes ((parseNotes notes)\<lparr>critical := Some crit\<rparr>)"

definition clearCritical :: "jsstring option \<Rightarrow> jsstring" where
  "clearCritical notes = formatNotes ((parseNotes notes)\<lparr>critical := None\<rparr>)"

text \<open>
  The record \<^verbatim>\<open>removeLink\<close> hands to \<^verbatim>\<open>formatNotes\<close>: the links filtered
  (\<^verbatim>\<open>links?.filter\<close> leaves a missing field missing), and the field deleted when
  the filtered list has length 0.
\<close>

definition removeLink_components :: "jsstring option \<Rightarrow> jsstring \<Rightarrow> NoteComponents" where
  "removeLink_components notes linkId =
     (let components = parseNotes notes;
          components1 = components\<lparr>links :=
              map_option (filter (\<lambda>id. id \<noteq> linkId)) (links components)\<rparr>
      in if map_option length (links components1) = Some 0
         then components1\<lparr>links := None\<rparr> else components1)"

definition removeLink :: "jsstring option \<Rightarrow> jsstring \<Rightarrow> jsstring" where
  "removeLink notes linkId = formatNotes (removeLink_components notes linkId)"

section \<open>Notions of the specification\<close>

text \<open>
  The deduplicated list of the specification: each element once, at the place
  of its first occurrence.
\<close>

function first_seen :: "'a list \<Rightarrow> 'a list" where
  "first_seen [] = []"
| "first_seen (x # xs) = x # first_seen (removeAll x xs)"
  by pat_completeness auto
termination
  by (relation "measure length") (auto simp: length_removeAll less_Suc_eq_le)

text \<open>
  The union of the specification's merge: the entries of \<open>xs\<close>, then the
  entries of \<open>ys\<close> that \<open>xs\<close> does not hold, each side in its own order.
\<close>

definition ordered_union :: "'a list \<Rightarrow> 'a list \<Rightarrow> 'a list" where
  "ordered_union xs ys = first_seen xs @ first_seen (filter (\<lambda>y. y \<notin> set xs) ys)"

text \<open>
  The merged content as the specification words it, where a field is present
  as soon as it is set, the empty string included.
\<close>

definition spec_merge_content :: "jsstring option \<Rightarrow> jsstring option \<Rightarrow> jsstring option" where
  "spec_merge_content e u =
     (case (e, u) of
        (Some a, Some b) \<Rightarrow> Some (a @ [nl, nl] @ b)
      | (Some a, None) \<Rightarrow> Some a
      | (None, Some b) \<Rightarrow> Some b
      | (None, None) \<Rightarrow> None)"

text \<open>A string that \<^verbatim>\<open>trim\<close> leaves alone: empty, or with no white space at either end.\<close>

definition trimmed :: "jsstring \<Rightarrow> bool" where
  "trimmed s = (s = [] \<or> (\<not> is_ws (hd s) \<and> \<not> is_ws (last s)))"


section \<open>Well-formed notes\<close>

fun opt_all :: "('a \<Rightarrow> bool) \<Rightarrow> 'a option \<Rightarrow> bool" where
  "opt_all P None = True"
| "opt_all P (Some x) = P x"

text \<open>
  A line as the parser stores it: not empty, no white space at either end, no
  line break inside, and not one of the two headers.
\<close>

definition good_line :: "jsstring \<Rightarrow> bool" where
  "good_line l = (l \<noteq> [] \<and> trim l = l \<and> nl \<notin> set l \<and> l \<noteq> hdr_critical \<and> l \<noteq> hdr_related)"

text \<open>
  A link id as the parser stores it: not empty, no white space at either end,
  no line break and no comma inside.
\<close>

definition good_token :: "jsstring \<Rightarrow> bool" where
  "good_token t = (t \<noteq> [] \<and> trim t = t \<and> nl \<notin> set t \<and> comma \<notin> set t)"

text \<open>
  A record in the parser's normal form: the content is a sequence of good
  lines, the critical text is one good line, the links are good ids.
\<close>

definition fmt_ok :: "NoteComponents \<Rightarrow> bool" where
  "fmt_ok c = (opt_all (\<lambda>s. list_all good_line (split_on nl s)) (content c)
     \<and> opt_all good_line (critical c)
     \<and> opt_all (list_all good_token) (links c))"

text \<open>The same for the state of the parsing loop.\<close>

definition st_ok :: "parse_state \<Rightarrow> bool" where
  "st_ok st = (list_all good_line (contentLines st)
     \<and> content (components st) = None
     \<and> opt_all good_line (critical (components st))
     \<and> opt_all (list_all good_token) (links (components st)))"

text \<open>
  A link list whose only entry is a header: formatted, its line is read back
  as that header.
\<close>

definition lone_header :: "jsstring list \<Rightarrow> bool" where
  "lone_header ls = (ls = [hdr_critical] \<or> ls = [hdr_related])"

text \<open>The links that come back from formatting and parsing a record in normal form.\<close>

definition keep_links :: "jsstring list option \<Rightarrow> jsstring list option" where
  "keep_links L = (case L of None \<Rightarrow> None
     | Some ls \<Rightarrow> if ls = [] \<or> lone_header ls then None else Some ls)"

text \<open>
  The records that survive a format-parse cycle unchanged: in normal form,
  with links, when present, that are neither empty nor a lone header.
\<close>

definition roundtrip_ok :: "NoteComponents \<Rightarrow> bool" where
  "roundtrip_ok c = (opt_all (\<lambda>s. list_all good_line (split_on nl s)) (content c)
     \<and> opt_all good_line (critical c)
     \<and> opt_all (\<lambda>ls. ls \<noteq> [] \<and> list_all good_token ls \<and> \<not> lone_header ls) (links c))"

text \<open>
  The hypothesis of the specification's round-trip property: every field that
  is present is non-empty and has no line that reads as a header.
\<close>

definition no_header_line :: "jsstring \<Rightarrow> bool" where
  "no_header_line s =
     list_all (\<lambda>l. trim l \<noteq> hdr_critical \<and> trim l \<noteq> hdr_related) (split_on nl s)"

definition spec_roundtrip_hyp :: "NoteComponents \<Rightarrow> bool" where
  "spec_roundtrip_hyp c = (opt_all (\<lambda>s. s \<noteq> [] \<and> no_header_line s) (content c)
     \<and> opt_all (\<lambda>k. k \<noteq> [] \<and> no_header_line k) (critical c)
     \<and> opt_all (\<lambda>ls. ls \<noteq> [] \<and> list_all (\<lambda>l. l \<noteq> [] \<and> no_header_line l) ls) (links c))"

text \<open>
  The records whose formatted text is stable: every field is empty or in
  normal form, and the links are not a lone header.
\<close>

definition stable_ok :: "NoteComponents \<Rightarrow> bool" where
  "stable_ok c = (opt_all (\<lambda>s. s = [] \<or> list_all good_line (split_on nl s)) (content c)
     \<and> opt_all (\<lambda>k. k = [] \<or> good_line k) (critical c)
     \<and> opt_all (\<lambda>ls. list_all good_token ls \<and> \<not> lone_header ls) (links c))"

definition drop_empty :: "'a list option \<Rightarrow> 'a list option" where
  "drop_empty x = (if x = Some [] then None else x)"


section \<open>Lists and strings\<close>

text \<open>The definitions that evaluating the codec on a given text unfolds.\<close>

lemmas eval_defs = js_def nl_def comma_def space_def is_ws_def trim_def hdr_critical_def
  hdr_related_def format_parts_def formatNotes_def parse_init_def parse_line_def parse_lines_def
  parse_finish_def parseNotes_def empty_components_def addLink_def removeLink_def
  removeLink_components_def new_Set_def set_add_def


subsection \<open>Splitting and joining\<close>

lemma split_on_not_Nil: "split_on d xs \<noteq> []"
  by (induction xs) (auto split: list.splits)

lemma split_on_append: "split_on d (xs @ d # ys) = split_on d xs @ split_on d ys"
proof (induction xs)
  case Nil
  show ?case by simp
next
  case (Cons x xs)
  show ?case
  proof (cases "x = d")
    case True
    then show ?thesis using Cons.IH by simp
  next
    case False
    obtain p ps where ps: "split_on d xs = p # ps"
      using split_on_not_Nil [of d xs] by (cases "split_on d xs") auto
    show ?thesis using False Cons.IH ps by simp
  qed
qed

lemma split_on_no_sep: "d \<notin> set xs \<Longrightarrow> split_on d xs = [xs]"
  by (induction xs) auto

lemma split_on_pieces: "p \<in> set (split_on d xs) \<Longrightarrow> d \<notin> set p"
proof (induction xs arbitrary: p)
  case Nil
  then show ?case by simp
next
  case (Cons x xs)
  obtain q qs where qs: "split_on d xs = q # qs"
    using split_on_not_Nil [of d xs] by (cases "split_on d xs") auto
  show ?case
  proof (cases "x = d")
    case True
    then show ?thesis using Cons by auto
  next
    case False
    then have "p = x # q \<or> p \<in> set qs" using Cons.prems qs by simp
    then show ?thesis
    proof
      assume "p = x # q"
      moreover have "d \<notin> set q" using Cons.IH [of q] qs by simp
      ultimately show ?thesis using False by auto
    next
      assume "p \<in> set qs"
      then show ?thesis using Cons.IH [of p] qs by simp
    qed
  qed
qed

lemma join_Cons: "ps \<noteq> [] \<Longrightarrow> join sep (p # ps) = p @ sep @ join sep ps"
  by (cases ps) auto

lemma join_split_on: "join [d] (split_on d xs) = xs"
proof (induction xs)
  case Nil
  show ?case by simp
next
  case (Cons x xs)
  obtain q qs where qs: "split_on d xs = q # qs"
    using split_on_not_Nil [of d xs] by (cases "split_on d xs") auto
  show ?case
  proof (cases "x = d")
    case True
    then show ?thesis using Cons.IH qs by (simp add: join_Cons)
  next
    case False
    then show ?thesis using Cons.IH qs by (cases qs) auto
  qed
qed

lemma split_on_join:
  "ps \<noteq> [] \<Longrightarrow> list_all (\<lambda>p. d \<notin> set p) ps \<Longrightarrow> split_on d (join [d] ps) = ps"
proof (induction ps)
  case Nil
  then show ?case by simp
next
  case (Cons p ps)
  show ?case
  proof (cases "ps = []")
    case True
    then show ?thesis using Cons.prems by (simp add: split_on_no_sep)
  next
    case False
    have "split_on d (join [d] (p # ps)) = split_on d (p @ d # join [d] ps)"
      using False by (simp add: join_Cons)
    also have "\<dots> = split_on d p @ split_on d (join [d] ps)"
      by (rule split_on_append)
    finally show ?thesis using Cons False by (simp add: split_on_no_sep)
  qed
qed

subsection \<open>Trimming\<close>

lemma dropWhile_id_hd: "xs \<noteq> [] \<Longrightarrow> \<not> P (hd xs) \<Longrightarrow> dropWhile P xs = xs"
  by (cases xs) auto

lemma hd_dropWhile_not: "dropWhile P xs \<noteq> [] \<Longrightarrow> \<not> P (hd (dropWhile P xs))"
  by (induction xs) auto

lemma last_dropWhile: "dropWhile P xs \<noteq> [] \<Longrightarrow> last (dropWhile P xs) = last xs"
  by (induction xs) auto

lemma trim_Nil: "trim [] = []"
  by (simp add: trim_def)

lemma trim_trimmed: "trimmed s \<Longrightarrow> trim s = s"
proof (cases "s = []")
  case True
  then show ?thesis by (simp add: trim_def)
next
  case False
  assume "trimmed s"
  then have h: "\<not> is_ws (hd s)" and l: "\<not> is_ws (last s)"
    using False by (simp_all add: trimmed_def)
  have a: "dropWhile is_ws s = s" using False h by (rule dropWhile_id_hd)
  have "hd (rev s) = last s" using False by (simp add: hd_rev)
  then have "dropWhile is_ws (rev s) = rev s"
    using False l by (simp add: dropWhile_id_hd)
  then show ?thesis using a by (simp add: trim_def)
qed

lemma trimmed_trim: "trimmed (trim s)"
proof (cases "trim s = []")
  case True
  then show ?thesis by (simp add: trimmed_def)
next
  case False
  let ?a = "dropWhile is_ws s"
  let ?b = "dropWhile is_ws (rev ?a)"
  have b: "?b \<noteq> []" using False by (simp add: trim_def)
  have a: "?a \<noteq> []"
  proof
    assume "?a = []"
    then have "?b = []" by (simp only: rev.simps dropWhile.simps)
    then show False using b by (simp only: not_True_eq_False)
  qed
  have "hd (trim s) = last ?b" using b by (simp add: trim_def hd_rev)
  also have "\<dots> = last (rev ?a)" using b by (rule last_dropWhile)
  also have "\<dots> = hd ?a" using a by (simp add: last_rev)
  finally have h: "\<not> is_ws (hd (trim s))" using hd_dropWhile_not [OF a] by simp
  have "last (trim s) = hd ?b" using b by (simp add: trim_def last_rev)
  then have "\<not> is_ws (last (trim s))" using hd_dropWhile_not [OF b] by simp
  then show ?thesis using h by (simp add: trimmed_def)
qed

lemma trim_idem: "trim (trim s) = trim s"
  by (rule trim_trimmed) (rule trimmed_trim)

lemma trim_eq_iff: "trim s = s \<longleftrightarrow> trimmed s"
  using trim_trimmed trimmed_trim by metis

lemma set_trim: "set (trim s) \<subseteq> set s"
proof -
  have "set (trim s) \<subseteq> set (dropWhile is_ws s)"
    unfolding trim_def using set_dropWhileD [of _ is_ws "rev (dropWhile is_ws s)"] by auto
  also have "\<dots> \<subseteq> set s" using set_dropWhileD [of _ is_ws s] by auto
  finally show ?thesis .
qed

lemma trim_ws_Cons: "is_ws c \<Longrightarrow> trim (c # s) = trim s"
  by (simp add: trim_def)


section \<open>Merging\<close>

lemma set_first_seen: "set (first_seen xs) = set xs"
  by (induction xs rule: first_seen.induct) auto

lemma distinct_first_seen: "distinct (first_seen xs)"
  by (induction xs rule: first_seen.induct) (auto simp: set_first_seen)

lemma ordered_union_props:
  "distinct (ordered_union xs ys)" "set (ordered_union xs ys) = set xs \<union> set ys"
  by (auto simp: ordered_union_def distinct_first_seen set_first_seen)

lemma removeAll_filter_conj: "removeAll x (filter P xs) = filter (\<lambda>y. P y \<and> y \<noteq> x) xs"
  by (induction xs) auto

lemma foldl_set_add:
  "foldl set_add acc xs = acc @ first_seen (filter (\<lambda>x. x \<notin> set acc) xs)"
proof (induction xs arbitrary: acc)
  case Nil
  show ?case by simp
next
  case (Cons x xs)
  show ?case
  proof (cases "x \<in> set acc")
    case True
    then show ?thesis using Cons.IH [of acc] by (simp add: set_add_def)
  next
    case False
    have "foldl set_add acc (x # xs) = foldl set_add (acc @ [x]) xs"
      using False by (simp add: set_add_def)
    also have "\<dots> = (acc @ [x]) @ first_seen (filter (\<lambda>y. y \<notin> set (acc @ [x])) xs)"
      by (rule Cons.IH)
    also have "filter (\<lambda>y. y \<notin> set (acc @ [x])) xs = removeAll x (filter (\<lambda>y. y \<notin> set acc) xs)"
      by (simp add: removeAll_filter_conj conj_commute)
    finally show ?thesis using False by simp
  qed
qed

lemma new_Set_first_seen: "new_Set xs = first_seen xs"
  by (simp add: new_Set_def foldl_set_add)

lemma new_Set_append: "new_Set (xs @ ys) = ordered_union xs ys"
proof -
  have "new_Set (xs @ ys) = foldl set_add (new_Set xs) ys"
    by (simp add: new_Set_def)
  also have "\<dots> = new_Set xs @ first_seen (filter (\<lambda>y. y \<notin> set (new_Set xs)) ys)"
    by (rule foldl_set_add)
  finally show ?thesis
    by (simp add: new_Set_first_seen set_first_seen ordered_union_def)
qed

lemma mergeNotes_links_not_empty: "links (mergeNotes existing updates) \<noteq> Some []"
proof -
  have "new_Set xs = [] \<longleftrightarrow> xs = []" for xs :: "jsstring list"
    by (cases xs) (simp_all add: new_Set_first_seen)
  then show ?thesis by (simp add: mergeNotes_def Let_def)
qed

text \<open>
  C4. The links of \<^verbatim>\<open>mergeNotes(existing, updates)\<close> are the deduplicated links
  of \<open>existing\<close> followed by the deduplicated links of \<open>updates\<close> that
  \<open>existing\<close> does not hold, each side in its own order; the field is absent
  when both sides have no link.
\<close>

theorem mergeNotes_links:
  "links (mergeNotes existing updates) =
     (if or_empty (links existing) = [] \<and> or_empty (links updates) = [] then None
      else Some (ordered_union (or_empty (links existing)) (or_empty (links updates))))"
  by (simp add: mergeNotes_def Let_def new_Set_append)

text \<open>
  C5, as the code has it. The two contents are joined by a blank line only
  when both are set and non-empty. Otherwise the content of \<open>updates\<close> is
  taken when it is set (also when it is the empty string), else the content
  of \<open>existing\<close>; the field is absent when neither is set.
\<close>

theorem mergeNotes_content:
  "content (mergeNotes existing updates) =
     (case (content existing, content updates) of
        (Some a, Some b) \<Rightarrow> (if a \<noteq> [] \<and> b \<noteq> [] then Some (a @ [nl, nl] @ b) else Some b)
      | (Some a, None) \<Rightarrow> Some a
      | (None, Some b) \<Rightarrow> Some b
      | (None, None) \<Rightarrow> None)"
  by (simp add: mergeNotes_def Let_def split: option.splits)

text \<open>
  C5 as stated fails: with \<open>existing.content = "a"\<close> and \<open>updates.content = ""\<close>,
  both set, the code returns the empty string, not \<open>"a\\n\\n"\<close>.
\<close>

theorem mergeNotes_content_counterexample:
  "content (mergeNotes \<lparr>content = Some (js ''a''), critical = None, links = None\<rparr>
                       \<lparr>content = Some (js ''''), critical = None, links = None\<rparr>) = Some (js '''')
   \<and> spec_merge_content (Some (js ''a'')) (Some (js '''')) = Some (js ''a\<newline>\<newline>'')
   \<and> js '''' \<noteq> js ''a\<newline>\<newline>''"
  by (simp add: mergeNotes_def spec_merge_content_def js_def nl_def)


section \<open>The parsing loop\<close>

lemma hdr_critical_eq: "hdr_critical = [0x43, 0x72, 0x69, 0x74, 0x69, 0x63, 0x61, 0x6C, 0x3A]"
  by (simp add: hdr_critical_def js_def)

lemma hdr_related_eq: "hdr_related = [0x52, 0x65, 0x6C, 0x61, 0x74, 0x65, 0x64, 0x3A]"
  by (simp add: hdr_related_def js_def)

lemma hdr_not_Nil: "hdr_critical \<noteq> []" "hdr_related \<noteq> []"
  by (simp_all add: hdr_critical_eq hdr_related_eq)

lemma hdr_distinct: "hdr_critical \<noteq> hdr_related" "hdr_related \<noteq> hdr_critical"
  by (simp_all add: hdr_critical_eq hdr_related_eq)

lemma hdr_trimmed: "trimmed hdr_critical" "trimmed hdr_related"
  by (simp_all add: hdr_critical_eq hdr_related_eq trimmed_def is_ws_def)

lemma hdr_no_nl: "nl \<notin> set hdr_critical" "nl \<notin> set hdr_related"
  by (simp_all add: hdr_critical_eq hdr_related_eq nl_def)

lemma hdr_no_comma: "comma \<notin> set hdr_critical" "comma \<notin> set hdr_related"
  by (simp_all add: hdr_critical_eq hdr_related_eq comma_def)

lemma hdr_trim: "trim hdr_critical = hdr_critical" "trim hdr_related = hdr_related"
  by (simp_all add: trim_trimmed hdr_trimmed)

lemma ws_chars: "is_ws nl" "is_ws space" "\<not> is_ws comma"
  by (simp_all add: is_ws_def nl_def space_def comma_def)

lemma split_on_subset: "p \<in> set (split_on d xs) \<Longrightarrow> set p \<subseteq> set xs"
proof (induction xs arbitrary: p)
  case Nil
  then show ?case by simp
next
  case (Cons x xs)
  obtain q qs where qs: "split_on d xs = q # qs"
    using split_on_not_Nil [of d xs] by (cases "split_on d xs") auto
  have q: "set q \<subseteq> set xs" using Cons.IH [of q] qs by simp
  have r: "set r \<subseteq> set xs" if "r \<in> set qs" for r using Cons.IH [of r] qs that by simp
  show ?case
  proof (cases "x = d")
    case True
    then have "p = [] \<or> p = q \<or> p \<in> set qs" using Cons.prems qs by simp
    then show ?thesis using q r by auto
  next
    case False
    then have "p = x # q \<or> p \<in> set qs" using Cons.prems qs by simp
    then show ?thesis using q r by auto
  qed
qed

subsection \<open>One line\<close>

lemma parse_line_blank: "trim l = [] \<Longrightarrow> parse_line st l = st"
  using hdr_not_Nil by (simp add: parse_line_def)

lemma parse_line_hdr_critical:
  "trim l = hdr_critical \<Longrightarrow> parse_line st l = st\<lparr>currentSection := Critical\<rparr>"
  by (simp add: parse_line_def)

lemma parse_line_hdr_related:
  "trim l = hdr_related \<Longrightarrow> parse_line st l = st\<lparr>currentSection := Related\<rparr>"
  by (simp add: parse_line_def hdr_distinct)

lemma parse_line_trim: "parse_line st (trim l) = parse_line st l"
  by (simp add: parse_line_def trim_idem)

lemma parse_lines_Nil: "parse_lines st [] = st"
  by (simp add: parse_lines_def)

lemma parse_lines_Cons: "parse_lines st (l # ls) = parse_lines (parse_line st l) ls"
  by (simp add: parse_lines_def)

lemma parse_lines_append: "parse_lines st (xs @ ys) = parse_lines (parse_lines st xs) ys"
  by (simp add: parse_lines_def)

lemma parse_lines_trim: "parse_lines st (map trim ls) = parse_lines st ls"
  by (induction ls arbitrary: st) (simp_all add: parse_lines_Nil parse_lines_Cons parse_line_trim)

lemma parse_lines_blank: "list_all (\<lambda>l. trim l = []) ls \<Longrightarrow> parse_lines st ls = st"
  by (induction ls arbitrary: st) (simp_all add: parse_lines_Nil parse_lines_Cons parse_line_blank)

lemma good_line_trim:
  "nl \<notin> set l \<Longrightarrow> trim l \<noteq> [] \<Longrightarrow> trim l \<noteq> hdr_critical \<Longrightarrow> trim l \<noteq> hdr_related
   \<Longrightarrow> good_line (trim l)"
  using set_trim [of l] by (auto simp: good_line_def trim_idem)

lemma good_tokens_split:
  assumes "nl \<notin> set s"
  shows "list_all good_token (filter (\<lambda>id. id \<noteq> []) (map trim (split_on comma s)))"
proof -
  have "good_token (trim p)" if p: "p \<in> set (split_on comma s)" and ne: "trim p \<noteq> []" for p
  proof -
    have "comma \<notin> set p" using p by (rule split_on_pieces)
    moreover have "set p \<subseteq> set s" using p by (rule split_on_subset)
    ultimately show ?thesis using assms ne set_trim [of p]
      by (auto simp: good_token_def trim_idem)
  qed
  then show ?thesis by (auto simp: list_all_iff)
qed

lemma st_ok_parse_line:
  assumes "st_ok st" "nl \<notin> set l"
  shows "st_ok (parse_line st l)"
proof -
  have t: "nl \<notin> set (trim l)" using assms(2) set_trim [of l] by auto
  show ?thesis
    using assms(1) good_line_trim [OF assms(2)] good_tokens_split [OF t]
    by (auto simp: parse_line_def st_ok_def Let_def split: note_section.splits)
qed

lemma st_ok_parse_lines:
  "st_ok st \<Longrightarrow> list_all (\<lambda>l. nl \<notin> set l) ls \<Longrightarrow> st_ok (parse_lines st ls)"
  by (induction ls arbitrary: st) (simp_all add: parse_lines_Nil parse_lines_Cons st_ok_parse_line)

lemma split_on_nl_lines: "list_all (\<lambda>l. nl \<notin> set l) (split_on nl s)"
  by (simp add: list_all_iff split_on_pieces)

lemma st_ok_init: "st_ok parse_init"
  by (simp add: st_ok_def parse_init_def empty_components_def)

lemma good_line_no_nl: "list_all good_line ls \<Longrightarrow> list_all (\<lambda>l. nl \<notin> set l) ls"
  by (simp add: list_all_iff good_line_def)

lemma fmt_ok_parse_finish: "st_ok st \<Longrightarrow> fmt_ok (parse_finish st)"
  by (auto simp: st_ok_def fmt_ok_def parse_finish_def split_on_join good_line_no_nl)

lemma fmt_ok_empty: "fmt_ok empty_components"
  by (simp add: fmt_ok_def empty_components_def)

lemma fmt_ok_parseNotes: "fmt_ok (parseNotes notes)"
  by (simp add: parseNotes_def fmt_ok_empty fmt_ok_parse_finish st_ok_parse_lines st_ok_init
      split_on_nl_lines)

subsection \<open>Links left empty by the parser\<close>

text \<open>
  C3, at the input where \<^verbatim>\<open>parseNotes\<close> breaks it: the line after
  \<open>Related:\<close> holds only a comma, every token is dropped, and the links
  field is set to the empty list.
\<close>

theorem parseNotes_empty_links:
  "parseNotes (Some (js ''Related:\<newline>,''))
   = \<lparr>content = None, critical = None, links = Some []\<rparr>"
  by (simp add: eval_defs)


lemma parseNotes_Some:
  "parseNotes (Some s) = parse_finish (parse_lines parse_init (split_on nl s))"
proof (cases "s = []")
  case True
  have "parse_lines parse_init [[]] = parse_init"
    by (simp add: parse_lines_Cons parse_lines_Nil parse_line_blank trim_Nil)
  then show ?thesis using True
    by (simp add: parseNotes_def parse_finish_def parse_init_def)
next
  case False
  then show ?thesis by (simp add: parseNotes_def)
qed

lemma join_trimmed:
  "ps \<noteq> [] \<Longrightarrow> list_all (\<lambda>p. p \<noteq> [] \<and> trimmed p) ps \<Longrightarrow>
   join sep ps \<noteq> [] \<and> hd (join sep ps) = hd (hd ps) \<and> last (join sep ps) = last (last ps)"
proof (induction ps)
  case Nil
  then show ?case by simp
next
  case (Cons p ps)
  show ?case
  proof (cases "ps = []")
    case True
    then show ?thesis using Cons.prems by simp
  next
    case False
    then show ?thesis using Cons by (simp add: join_Cons)
  qed
qed

lemma join_trimmed':
  assumes "ps \<noteq> []" "list_all (\<lambda>p. p \<noteq> [] \<and> trimmed p) ps"
  shows "join sep ps \<noteq> []" "trimmed (join sep ps)"
proof -
  note j = join_trimmed [OF assms, of sep]
  show "join sep ps \<noteq> []" using j by simp
  have "hd ps \<in> set ps" "last ps \<in> set ps" using assms(1) by simp_all
  then have "hd ps \<noteq> [] \<and> trimmed (hd ps)" "last ps \<noteq> [] \<and> trimmed (last ps)"
    using assms(2) by (simp_all add: list_all_iff)
  then show "trimmed (join sep ps)" using j by (auto simp: trimmed_def)
qed

lemma set_join: "set (join sep ps) \<subseteq> set sep \<union> \<Union> (set ` set ps)"
proof (induction ps)
  case Nil
  show ?case by simp
next
  case (Cons p ps)
  then show ?case by (cases ps) auto
qed

lemma split_join_blank:
  "ps \<noteq> [] \<Longrightarrow> split_on nl (join [nl, nl] ps) = join [[]] (map (split_on nl) ps)"
proof (induction ps)
  case Nil
  then show ?case by simp
next
  case (Cons p ps)
  show ?case
  proof (cases "ps = []")
    case True
    then show ?thesis by simp
  next
    case False
    have "split_on nl (join [nl, nl] (p # ps)) = split_on nl (p @ nl # (nl # join [nl, nl] ps))"
      using False by (simp add: join_Cons)
    also have "\<dots> = split_on nl p @ split_on nl (nl # join [nl, nl] ps)"
      by (rule split_on_append)
    also have "\<dots> = split_on nl p @ [[]] @ split_on nl (join [nl, nl] ps)"
      by simp
    finally show ?thesis using False Cons.IH by (simp add: join_Cons)
  qed
qed

lemma parse_lines_join_blank: "parse_lines st (join [[]] bs) = foldl parse_lines st bs"
proof (induction bs arbitrary: st)
  case Nil
  show ?case by (simp add: parse_lines_Nil)
next
  case (Cons b bs)
  show ?case
  proof (cases "bs = []")
    case True
    then show ?thesis by simp
  next
    case False
    have "parse_lines st (join [[]] (b # bs)) = parse_lines st (b @ [] # join [[]] bs)"
      using False by (simp add: join_Cons)
    also have "\<dots> = parse_lines (parse_line (parse_lines st b) []) (join [[]] bs)"
      by (simp add: parse_lines_append parse_lines_Cons)
    also have "\<dots> = parse_lines (parse_lines st b) (join [[]] bs)"
      by (simp add: parse_line_blank trim_Nil)
    finally show ?thesis using Cons.IH by simp
  qed
qed

subsection \<open>What each block of a formatted note does to the parser\<close>

lemma parse_line_content:
  "good_line l \<Longrightarrow> currentSection st = Content \<Longrightarrow>
   parse_line st l = st\<lparr>contentLines := contentLines st @ [l]\<rparr>"
  by (simp add: parse_line_def good_line_def)

lemma parse_lines_content:
  "list_all good_line ls \<Longrightarrow> currentSection st = Content \<Longrightarrow>
   parse_lines st ls = st\<lparr>contentLines := contentLines st @ ls\<rparr>"
proof (induction ls arbitrary: st)
  case Nil
  show ?case by (simp add: parse_lines_Nil)
next
  case (Cons l ls)
  then show ?case by (simp add: parse_lines_Cons parse_line_content)
qed

lemma parse_lines_critical_block:
  "good_line k \<Longrightarrow>
   parse_lines st [hdr_critical, k] =
     st\<lparr>components := (components st)\<lparr>critical := Some k\<rparr>, currentSection := Content\<rparr>"
  by (simp add: parse_lines_Cons parse_lines_Nil parse_line_hdr_critical hdr_trim)
     (simp add: parse_line_def good_line_def)

lemma split_on_comma_join:
  "list_all (\<lambda>t. comma \<notin> set t) (t # ts) \<Longrightarrow>
   split_on comma (join [comma, space] (t # ts)) = t # map ((#) space) ts"
proof (induction ts arbitrary: t)
  case Nil
  then show ?case by (simp add: split_on_no_sep)
next
  case (Cons u us)
  have "split_on comma (join [comma, space] (t # u # us))
        = split_on comma (t @ comma # (space # join [comma, space] (u # us)))"
    by simp
  also have "\<dots> = split_on comma t @ split_on comma (space # join [comma, space] (u # us))"
    by (rule split_on_append)
  also have "split_on comma (join [comma, space] (u # us)) = u # map ((#) space) us"
    using Cons by simp
  then have "split_on comma (space # join [comma, space] (u # us)) = (space # u) # map ((#) space) us"
    by (simp add: space_def comma_def)
  finally show ?case using Cons.prems by (simp add: split_on_no_sep)
qed

lemma tokens_roundtrip:
  assumes "list_all good_token ls" "ls \<noteq> []"
  shows "filter (\<lambda>id. id \<noteq> []) (map trim (split_on comma (join [comma, space] ls))) = ls"
proof -
  obtain t ts where l: "ls = t # ts" using assms(2) by (cases ls) auto
  have nc: "list_all (\<lambda>t. comma \<notin> set t) (t # ts)"
    using assms(1) l by (simp add: list_all_iff good_token_def)
  have tr: "map trim (t # map ((#) space) ts) = t # ts"
    using assms(1) l by (simp add: list_all_iff good_token_def trim_ws_Cons ws_chars map_idI)
  have "filter (\<lambda>id. id \<noteq> []) (t # ts) = t # ts"
    using assms(1) l by (auto simp: list_all_iff good_token_def filter_id_conv)
  then show ?thesis using split_on_comma_join [OF nc] tr l by simp
qed

lemma links_line:
  assumes "list_all good_token ls" "ls \<noteq> []"
  shows "join [comma, space] ls \<noteq> []" "trim (join [comma, space] ls) = join [comma, space] ls"
    "nl \<notin> set (join [comma, space] ls)"
    "join [comma, space] ls = h \<Longrightarrow> comma \<notin> set h \<Longrightarrow> ls = [h]"
proof -
  have g: "list_all (\<lambda>p. p \<noteq> [] \<and> trimmed p) ls"
    using assms(1) by (simp add: list_all_iff good_token_def trim_eq_iff)
  show "join [comma, space] ls \<noteq> []" using join_trimmed'(1) [OF assms(2) g] .
  show "trim (join [comma, space] ls) = join [comma, space] ls"
    using join_trimmed'(2) [OF assms(2) g] by (rule trim_trimmed)
  show "nl \<notin> set (join [comma, space] ls)"
    using set_join [of "[comma, space]" ls] assms(1)
    by (auto simp: list_all_iff good_token_def nl_def comma_def space_def)
  show "ls = [h]" if "join [comma, space] ls = h" "comma \<notin> set h"
  proof -
    obtain t ts where l: "ls = t # ts" using assms(2) by (cases ls) auto
    show ?thesis
    proof (cases ts)
      case Nil
      then show ?thesis using l that by simp
    next
      case (Cons u us)
      then have "comma \<in> set (join [comma, space] ls)" using l by simp
      then show ?thesis using that by simp
    qed
  qed
qed

lemma parse_lines_related_block:
  assumes "list_all good_token ls" "ls \<noteq> []"
  shows "parse_lines st [hdr_related, join [comma, space] ls] =
     (if ls = [hdr_critical] then st\<lparr>currentSection := Critical\<rparr>
      else if ls = [hdr_related] then st\<lparr>currentSection := Related\<rparr>
      else st\<lparr>components := (components st)\<lparr>links := Some ls\<rparr>, currentSection := Content\<rparr>)"
proof -
  let ?line = "join [comma, space] ls"
  note ll = links_line [OF assms]
  have c: "?line = hdr_critical \<longleftrightarrow> ls = [hdr_critical]"
    using ll(4) [of hdr_critical] hdr_no_comma by auto
  have r: "?line = hdr_related \<longleftrightarrow> ls = [hdr_related]"
    using ll(4) [of hdr_related] hdr_no_comma by auto
  have "parse_lines st [hdr_related, ?line] = parse_line (st\<lparr>currentSection := Related\<rparr>) ?line"
    by (simp add: parse_lines_Cons parse_lines_Nil parse_line_hdr_related hdr_trim)
  also have "\<dots> = (if ls = [hdr_critical] then st\<lparr>currentSection := Critical\<rparr>
      else if ls = [hdr_related] then st\<lparr>currentSection := Related\<rparr>
      else st\<lparr>components := (components st)\<lparr>links := Some ls\<rparr>, currentSection := Content\<rparr>)"
    using ll(1) c r by (simp add: parse_line_def ll(2) tokens_roundtrip [OF assms] hdr_distinct)
  finally show ?thesis .
qed

lemma content_trimmed:
  assumes "list_all good_line (split_on nl s)"
  shows "s \<noteq> []" "trimmed s"
proof -
  have g: "list_all (\<lambda>p. p \<noteq> [] \<and> trimmed p) (split_on nl s)"
    using assms by (simp add: list_all_iff good_line_def trim_eq_iff)
  have "join [nl] (split_on nl s) \<noteq> []" "trimmed (join [nl] (split_on nl s))"
    using join_trimmed' [OF split_on_not_Nil g] by simp_all
  then show "s \<noteq> []" "trimmed s" by (simp_all add: join_split_on)
qed

lemma block_trimmed:
  assumes "h \<noteq> []" "trimmed h" "k \<noteq> []" "trimmed k"
  shows "trimmed (h @ [nl] @ k)"
  using assms by (simp add: trimmed_def)

lemma format_parts_ok:
  assumes "fmt_ok c"
  shows "list_all (\<lambda>p. p \<noteq> [] \<and> trimmed p) (format_parts c)"
proof -
  have 1: "s \<noteq> [] \<and> trimmed s" if "content c = Some s" for s
    using assms that content_trimmed [of s] by (simp add: fmt_ok_def)
  have 2: "trimmed (hdr_critical @ [nl] @ k)" if "critical c = Some k" for k
    using assms that hdr_not_Nil hdr_trimmed
    by (intro block_trimmed) (simp_all add: fmt_ok_def good_line_def trim_eq_iff)
  have 3: "trimmed (hdr_related @ [nl] @ join [comma, space] ls)"
    if "links c = Some ls" "ls \<noteq> []" for ls
  proof -
    have g: "list_all good_token ls" using assms that by (simp add: fmt_ok_def)
    show ?thesis
      using hdr_not_Nil hdr_trimmed links_line(1,2) [OF g that(2)]
      by (intro block_trimmed) (simp_all add: trim_eq_iff)
  qed
  show ?thesis
    using 1 2 3 by (simp add: format_parts_def split: option.splits)
qed

lemma formatNotes_join: "fmt_ok c \<Longrightarrow> formatNotes c = join [nl, nl] (format_parts c)"
proof (cases "format_parts c = []")
  case True
  then show ?thesis by (simp add: formatNotes_def trim_Nil)
next
  case False
  assume "fmt_ok c"
  then have "trimmed (join [nl, nl] (format_parts c))"
    using False by (intro join_trimmed'(2) format_parts_ok)
  then show ?thesis by (simp add: formatNotes_def trim_trimmed)
qed

lemma parse_lines_formatNotes:
  assumes "fmt_ok c"
  shows "parse_lines st (split_on nl (formatNotes c))
         = foldl parse_lines st (map (split_on nl) (format_parts c))"
proof (cases "format_parts c = []")
  case True
  then show ?thesis using assms
    by (simp add: formatNotes_join parse_lines_Cons parse_lines_Nil parse_line_blank trim_Nil)
next
  case False
  then show ?thesis using assms
    by (simp add: formatNotes_join split_join_blank parse_lines_join_blank)
qed

lemma good_line_Nil: "\<not> good_line []"
  by (simp add: good_line_def)

lemma good_line_nl: "good_line k \<Longrightarrow> nl \<notin> set k"
  by (simp add: good_line_def)

lemma split_block: "nl \<notin> set h \<Longrightarrow> nl \<notin> set k \<Longrightarrow> split_on nl (h @ nl # k) = [h, k]"
  using split_on_append [of nl h k] by (simp add: split_on_no_sep)

lemma parse_format:
  assumes "fmt_ok c"
  shows "parseNotes (Some (formatNotes c)) = c\<lparr>links := keep_links (links c)\<rparr>"
proof -
  obtain C K L where c: "c = \<lparr>content = C, critical = K, links = L\<rparr>" by (cases c)
  define st1 where "st1 = (case C of None \<Rightarrow> parse_init
     | Some s \<Rightarrow> parse_init\<lparr>contentLines := split_on nl s\<rparr>)"
  define st2 where "st2 = (case K of None \<Rightarrow> st1
     | Some k \<Rightarrow> st1\<lparr>components := (components st1)\<lparr>critical := Some k\<rparr>\<rparr>)"
  define st3 where "st3 = (case L of None \<Rightarrow> st2
     | Some ls \<Rightarrow> if ls = [] then st2
        else if ls = [hdr_critical] then st2\<lparr>currentSection := Critical\<rparr>
        else if ls = [hdr_related] then st2\<lparr>currentSection := Related\<rparr>
        else st2\<lparr>components := (components st2)\<lparr>links := Some ls\<rparr>\<rparr>)"
  have okC: "opt_all (\<lambda>s. list_all good_line (split_on nl s)) C"
    and okK: "opt_all good_line K" and okL: "opt_all (list_all good_token) L"
    using assms c by (simp_all add: fmt_ok_def)
  let ?pc = "case C of None \<Rightarrow> [] | Some s \<Rightarrow> if s \<noteq> [] then [s] else []"
  let ?pk = "case K of None \<Rightarrow> [] | Some k \<Rightarrow> if k \<noteq> [] then [hdr_critical @ [nl] @ k] else []"
  let ?pl = "case L of None \<Rightarrow> []
     | Some ls \<Rightarrow> if length ls \<noteq> 0 then [hdr_related @ [nl] @ join [comma, space] ls] else []"
  have s1: "foldl parse_lines parse_init (map (split_on nl) ?pc) = st1"
    and sec1: "currentSection st1 = Content"
    using okC content_trimmed(1)
    by (auto simp: st1_def parse_lines_content parse_init_def good_line_Nil split: option.splits)
  have s2: "foldl parse_lines st1 (map (split_on nl) ?pk) = st2"
    and sec2: "currentSection st2 = Content"
    using okK sec1 hdr_no_nl
    by (auto simp: st2_def split_block parse_lines_critical_block good_line_nl good_line_Nil
        split: option.splits)
  have s3: "foldl parse_lines st2 (map (split_on nl) ?pl) = st3"
  proof (cases L)
    case None
    then show ?thesis by (simp add: st3_def)
  next
    case (Some ls)
    show ?thesis
    proof (cases "ls = []")
      case True
      then show ?thesis using Some by (simp add: st3_def)
    next
      case False
      have g: "list_all good_token ls" using okL Some by simp
      have "split_on nl (hdr_related @ nl # join [comma, space] ls)
            = [hdr_related, join [comma, space] ls]"
        using hdr_no_nl(2) links_line(3) [OF g False] by (rule split_block)
      moreover have "parse_lines st2 [hdr_related, join [comma, space] ls] = st3"
        using False sec2 Some
        by (simp del: join.simps add: parse_lines_related_block [OF g False] st3_def)
      ultimately show ?thesis using False Some by (simp del: join.simps)
    qed
  qed
  have "parse_lines parse_init (split_on nl (formatNotes c)) = st3"
    using assms by (simp add: parse_lines_formatNotes format_parts_def c s1 s2 s3)
  then have "parseNotes (Some (formatNotes c)) = parse_finish st3"
    by (simp add: parseNotes_Some)
  also have "\<dots> = c\<lparr>links := keep_links (links c)\<rparr>"
    using okC
    by (auto simp: parse_finish_def st3_def st2_def st1_def parse_init_def empty_components_def
        c keep_links_def lone_header_def join_split_on split_on_not_Nil split: option.splits)
  finally show ?thesis .
qed


section \<open>Parsing what was formatted\<close>

lemma opt_all_mono: "opt_all P x \<Longrightarrow> (\<And>y. P y \<Longrightarrow> Q y) \<Longrightarrow> opt_all Q x"
  by (cases x) auto

lemma roundtrip_fmt_ok: "roundtrip_ok c \<Longrightarrow> fmt_ok c"
  by (auto simp: roundtrip_ok_def fmt_ok_def elim: opt_all_mono)

lemma roundtrip_if:
  assumes "roundtrip_ok c"
  shows "parseNotes (Some (formatNotes c)) = c"
proof -
  have "keep_links (links c) = links c"
    using assms by (cases "links c") (simp_all add: roundtrip_ok_def keep_links_def)
  then show ?thesis using parse_format [OF roundtrip_fmt_ok [OF assms]] by simp
qed

lemma roundtrip_only_if:
  assumes "parseNotes (Some (formatNotes c)) = c"
  shows "roundtrip_ok c"
proof -
  have ok: "fmt_ok c" using fmt_ok_parseNotes [of "Some (formatNotes c)"] assms by simp
  have "c\<lparr>links := keep_links (links c)\<rparr> = c"
    using parse_format [OF ok] assms by simp
  then have "links (c\<lparr>links := keep_links (links c)\<rparr>) = links c" by (simp only:)
  then have k: "keep_links (links c) = links c" by simp
  have "opt_all (\<lambda>ls. ls \<noteq> [] \<and> list_all good_token ls \<and> \<not> lone_header ls) (links c)"
  proof (cases "links c")
    case None
    then show ?thesis by simp
  next
    case (Some ls)
    then show ?thesis using k ok by (auto simp: keep_links_def fmt_ok_def split: if_splits)
  qed
  then show ?thesis using ok by (simp add: roundtrip_ok_def fmt_ok_def)
qed

text \<open>
  C1, as the code has it. A record comes back unchanged from
  \<^verbatim>\<open>parseNotes(formatNotes(c))\<close> when its content is made of lines that are
  non-empty, carry no white space at either end and are not headers, its
  critical text is one such line, and its links are a non-empty list of ids
  that are non-empty, carry no white space at either end, hold no comma and
  no line break, and are not a single header token. No other record comes
  back unchanged.
\<close>

theorem parse_format_roundtrip: "parseNotes (Some (formatNotes c)) = c \<longleftrightarrow> roundtrip_ok c"
  using roundtrip_if roundtrip_only_if by blast

theorem parse_format_roundtrip_witness:
  "roundtrip_ok \<lparr>content = Some (js ''First line.\<newline>Second line.''),
      critical = Some (js ''Must complete today''), links = Some [js ''ID1'', js ''ID2'']\<rparr>
   \<and> parseNotes (Some (formatNotes \<lparr>content = Some (js ''First line.\<newline>Second line.''),
      critical = Some (js ''Must complete today''), links = Some [js ''ID1'', js ''ID2'']\<rparr>))
     = \<lparr>content = Some (js ''First line.\<newline>Second line.''),
      critical = Some (js ''Must complete today''), links = Some [js ''ID1'', js ''ID2'']\<rparr>"
proof -
  have h: "roundtrip_ok \<lparr>content = Some (js ''First line.\<newline>Second line.''),
      critical = Some (js ''Must complete today''), links = Some [js ''ID1'', js ''ID2'']\<rparr>"
    by (simp add: roundtrip_ok_def good_line_def good_token_def lone_header_def eval_defs)
  show ?thesis using h parse_format_roundtrip [of "\<lparr>content = Some (js ''First line.\<newline>Second line.''),
      critical = Some (js ''Must complete today''), links = Some [js ''ID1'', js ''ID2'']\<rparr>"]
    by blast
qed

text \<open>
  C1 as stated fails: the content \<open>a\<close>, blank line, \<open>b\<close> is non-empty and
  has no header line, and comes back without its blank line.
\<close>

theorem parse_format_roundtrip_counterexample:
  "spec_roundtrip_hyp \<lparr>content = Some (js ''a\<newline>\<newline>b''), critical = None, links = None\<rparr>
   \<and> parseNotes (Some (formatNotes \<lparr>content = Some (js ''a\<newline>\<newline>b''), critical = None, links = None\<rparr>))
      = \<lparr>content = Some (js ''a\<newline>b''), critical = None, links = None\<rparr>
   \<and> js ''a\<newline>b'' \<noteq> js ''a\<newline>\<newline>b''"
  by (simp add: spec_roundtrip_hyp_def no_header_line_def eval_defs)

lemma format_parts_drop_empty:
  "format_parts (c\<lparr>content := drop_empty (content c), critical := drop_empty (critical c)\<rparr>)
   = format_parts c"
  by (auto simp: format_parts_def drop_empty_def split: option.splits)

lemma format_parts_keep_links:
  "opt_all (\<lambda>ls. \<not> lone_header ls) (links c) \<Longrightarrow>
   format_parts (c\<lparr>links := keep_links (links c)\<rparr>) = format_parts c"
  by (auto simp: format_parts_def keep_links_def split: option.splits)

text \<open>
  C2, as the code has it. Formatting the result of a format-parse cycle gives
  the same text when every field of the record is absent, empty or in the
  parser's normal form and the links are not a single header token.
\<close>

theorem format_stable:
  assumes "stable_ok c"
  shows "formatNotes (parseNotes (Some (formatNotes c))) = formatNotes c"
proof -
  let ?d = "c\<lparr>content := drop_empty (content c), critical := drop_empty (critical c)\<rparr>"
  have f: "formatNotes ?d = formatNotes c"
    by (simp only: formatNotes_def format_parts_drop_empty)
  have ok: "fmt_ok ?d"
    using assms
    by (cases "content c"; cases "critical c"; cases "links c")
       (auto simp: stable_ok_def fmt_ok_def drop_empty_def)
  have l: "opt_all (\<lambda>ls. \<not> lone_header ls) (links ?d)"
    using assms by (cases "links c") (simp_all add: stable_ok_def)
  have "parseNotes (Some (formatNotes ?d)) = ?d\<lparr>links := keep_links (links ?d)\<rparr>"
    using ok by (rule parse_format)
  then have "formatNotes (parseNotes (Some (formatNotes ?d)))
             = formatNotes (?d\<lparr>links := keep_links (links ?d)\<rparr>)"
    by (simp only:)
  also have "\<dots> = formatNotes ?d"
    by (simp only: formatNotes_def format_parts_keep_links [OF l])
  finally show ?thesis by (simp only: f)
qed

theorem format_stable_witness:
  "stable_ok \<lparr>content = Some [], critical = Some (js ''Urgent''), links = Some []\<rparr>
   \<and> formatNotes (parseNotes (Some (formatNotes
        \<lparr>content = Some [], critical = Some (js ''Urgent''), links = Some []\<rparr>)))
     = formatNotes \<lparr>content = Some [], critical = Some (js ''Urgent''), links = Some []\<rparr>"
proof -
  have h: "stable_ok \<lparr>content = Some [], critical = Some (js ''Urgent''), links = Some []\<rparr>"
    by (simp add: stable_ok_def good_line_def good_token_def lone_header_def eval_defs)
  show ?thesis using h format_stable [OF h] by simp
qed

text \<open>
  C2 as stated fails for every record: a critical text of two lines is split
  by the parser, and its second line is formatted as content, ahead of the
  critical block.
\<close>

theorem format_stable_counterexample:
  "formatNotes \<lparr>content = None, critical = Some (js ''x\<newline>y''), links = None\<rparr>
     = js ''Critical:\<newline>x\<newline>y''
   \<and> formatNotes (parseNotes (Some (formatNotes
        \<lparr>content = None, critical = Some (js ''x\<newline>y''), links = None\<rparr>)))
     = js ''y\<newline>\<newline>Critical:\<newline>x''
   \<and> js ''y\<newline>\<newline>Critical:\<newline>x'' \<noteq> js ''Critical:\<newline>x\<newline>y''"
  by (simp add: eval_defs)


section \<open>What the parser stores\<close>

lemma contentLines_parse_line:
  "set (contentLines (parse_line st l)) \<subseteq> set (contentLines st) \<union> {trim l}"
  by (auto simp: parse_line_def Let_def split: note_section.splits)

lemma contentLines_parse_lines:
  "set (contentLines (parse_lines st ls)) \<subseteq> set (contentLines st) \<union> set (map trim ls)"
proof (induction ls arbitrary: st)
  case Nil
  show ?case by (simp add: parse_lines_Nil)
next
  case (Cons l ls)
  show ?case
    using Cons.IH [of "parse_line st l"] contentLines_parse_line [of st l]
    by (auto simp: parse_lines_Cons)
qed

lemma content_parse_finish:
  assumes "st_ok st" "content (parse_finish st) = Some s"
  shows "split_on nl s = contentLines st"
proof -
  have ne: "contentLines st \<noteq> []" and s: "s = join [nl] (contentLines st)"
    using assms by (auto simp: parse_finish_def st_ok_def split: if_splits)
  have "list_all (\<lambda>l. nl \<notin> set l) (contentLines st)"
    using assms(1) by (simp add: st_ok_def good_line_no_nl)
  then show ?thesis using ne s by (simp add: split_on_join)
qed

text \<open>
  C9. When \<^verbatim>\<open>parseNotes\<close> returns a content, its lines are non-empty and
  have no white space at either end, so no blank line, indentation or trailing
  white space of the input is kept; and each of them is the trimmed form of a
  line of the input.
\<close>

theorem parseNotes_content_lines:
  assumes "content (parseNotes notes) = Some s"
  shows "list_all (\<lambda>l. trim l = l \<and> l \<noteq> []) (split_on nl s)
       \<and> list_all (\<lambda>l. l \<in> set (map trim (split_on nl (or_empty notes)))) (split_on nl s)"
proof -
  obtain t where t: "notes = Some t"
    using assms by (cases "notes") (simp_all add: parseNotes_def empty_components_def)
  let ?st = "parse_lines parse_init (split_on nl t)"
  have ok: "st_ok ?st"
    by (simp add: st_ok_parse_lines st_ok_init split_on_nl_lines)
  have c: "content (parse_finish ?st) = Some s" using assms t by (simp add: parseNotes_Some)
  have l: "split_on nl s = contentLines ?st" using ok c by (rule content_parse_finish)
  have "list_all good_line (contentLines ?st)" using ok by (simp add: st_ok_def)
  then have 1: "list_all (\<lambda>l. trim l = l \<and> l \<noteq> []) (split_on nl s)"
    using l by (simp add: list_all_iff good_line_def)
  have "set (contentLines ?st) \<subseteq> set (map trim (split_on nl t))"
    using contentLines_parse_lines [of parse_init "split_on nl t"] by (simp add: parse_init_def)
  then have 2: "list_all (\<lambda>l. l \<in> set (map trim (split_on nl (or_empty notes)))) (split_on nl s)"
    using l t by (auto simp: list_all_iff)
  show ?thesis using 1 2 ..
qed

theorem parseNotes_content_lines_witness:
  "content (parseNotes (Some (js ''  Buy milk  \<newline>\<newline>    indented\<newline>Critical:\<newline>now\<newline>last '')))
     = Some (js ''Buy milk\<newline>indented\<newline>last'')
   \<and> list_all (\<lambda>l. trim l = l \<and> l \<noteq> []) (split_on nl (js ''Buy milk\<newline>indented\<newline>last''))
   \<and> list_all (\<lambda>l. l \<in> set (map trim (split_on nl (or_empty
        (Some (js ''  Buy milk  \<newline>\<newline>    indented\<newline>Critical:\<newline>now\<newline>last ''))))))
      (split_on nl (js ''Buy milk\<newline>indented\<newline>last''))"
proof -
  have h: "content (parseNotes (Some (js ''  Buy milk  \<newline>\<newline>    indented\<newline>Critical:\<newline>now\<newline>last '')))
     = Some (js ''Buy milk\<newline>indented\<newline>last'')"
    by (simp add: eval_defs)
  show ?thesis using h parseNotes_content_lines [OF h] by simp
qed

text \<open>
  C10. A line is taken as a header when its trimmed form is the header: the
  loop then only switches the section. More generally the result of
  \<^verbatim>\<open>parseNotes\<close> depends on the lines of the input only through their
  trimmed forms.
\<close>

theorem header_after_trim:
  "(trim l = hdr_critical \<longrightarrow> parse_line st l = st\<lparr>currentSection := Critical\<rparr>)
   \<and> (trim l = hdr_related \<longrightarrow> parse_line st l = st\<lparr>currentSection := Related\<rparr>)
   \<and> (map trim (split_on nl a) = map trim (split_on nl b)
        \<longrightarrow> parseNotes (Some a) = parseNotes (Some b))"
proof -
  have "parseNotes (Some a) = parseNotes (Some b)"
    if "map trim (split_on nl a) = map trim (split_on nl b)"
  proof -
    have "parse_lines parse_init (split_on nl a) = parse_lines parse_init (map trim (split_on nl a))"
      by (simp add: parse_lines_trim)
    also have "\<dots> = parse_lines parse_init (split_on nl b)"
      by (simp add: that parse_lines_trim)
    finally show ?thesis by (simp add: parseNotes_Some)
  qed
  then show ?thesis
    by (simp add: parse_line_hdr_critical parse_line_hdr_related)
qed

theorem header_after_trim_witness:
  "trim (js ''  Critical:  '') = hdr_critical
   \<and> parse_line parse_init (js ''  Critical:  '') = parse_init\<lparr>currentSection := Critical\<rparr>
   \<and> trim (0x09 # js ''Related:'') = hdr_related
   \<and> parse_line parse_init (0x09 # js ''Related:'') = parse_init\<lparr>currentSection := Related\<rparr>
   \<and> map trim (split_on nl (js ''  Critical:  \<newline>Urgent\<newline>'' @ 0x09 # js ''Related:\<newline>A, B''))
       = map trim (split_on nl (js ''Critical:\<newline>Urgent\<newline>Related:\<newline>A, B''))
   \<and> parseNotes (Some (js ''  Critical:  \<newline>Urgent\<newline>'' @ 0x09 # js ''Related:\<newline>A, B''))
       = parseNotes (Some (js ''Critical:\<newline>Urgent\<newline>Related:\<newline>A, B''))
   \<and> parseNotes (Some (js ''Critical:\<newline>Urgent\<newline>Related:\<newline>A, B''))
       = \<lparr>content = None, critical = Some (js ''Urgent''), links = Some [js ''A'', js ''B'']\<rparr>"
proof -
  have 1: "trim (js ''  Critical:  '') = hdr_critical"
    by (simp add: eval_defs)
  have 2: "trim (0x09 # js ''Related:'') = hdr_related"
    by (simp add: eval_defs)
  have 3: "map trim (split_on nl (js ''  Critical:  \<newline>Urgent\<newline>'' @ 0x09 # js ''Related:\<newline>A, B''))
       = map trim (split_on nl (js ''Critical:\<newline>Urgent\<newline>Related:\<newline>A, B''))"
    by (simp add: eval_defs)
  have 4: "parseNotes (Some (js ''Critical:\<newline>Urgent\<newline>Related:\<newline>A, B''))
       = \<lparr>content = None, critical = Some (js ''Urgent''), links = Some [js ''A'', js ''B'']\<rparr>"
    by (simp add: eval_defs)
  show ?thesis
    using 1 2 3 4
      header_after_trim [of "js ''  Critical:  ''" parse_init
        "js ''  Critical:  \<newline>Urgent\<newline>'' @ 0x09 # js ''Related:\<newline>A, B''"
        "js ''Critical:\<newline>Urgent\<newline>Related:\<newline>A, B''"]
      header_after_trim [of "0x09 # js ''Related:''" parse_init "[]" "[]"]
    by simp
qed


section \<open>Headers at the end of the input\<close>

lemma parse_finish_section: "parse_finish (st\<lparr>currentSection := x\<rparr>) = parse_finish st"
  by (simp add: parse_finish_def)

lemma trailing_header:
  assumes "trim h = hdr_critical \<or> trim h = hdr_related" "list_all (\<lambda>l. trim l = []) post"
  shows "parse_finish (parse_lines st (pre @ h # post)) = parse_finish (parse_lines st pre)"
proof -
  have "parse_lines st (pre @ h # post) = parse_line (parse_lines st pre) h"
    using assms(2) by (simp add: parse_lines_append parse_lines_Cons parse_lines_blank)
  then show ?thesis
    using assms(1)
    by (auto simp: parse_line_hdr_critical parse_line_hdr_related parse_finish_section)
qed

lemma parseNotes_join_lines:
  assumes "list_all (\<lambda>l. nl \<notin> set l) pre"
  shows "parseNotes (Some (join [nl] pre)) = parse_finish (parse_lines parse_init pre)"
proof (cases "pre = []")
  case True
  then show ?thesis
    by (simp add: parseNotes_def parse_lines_Nil parse_finish_def parse_init_def)
next
  case False
  then show ?thesis using assms by (simp add: parseNotes_Some split_on_join)
qed

lemma no_critical_capture:
  "list_all (\<lambda>l. trim l \<noteq> hdr_critical) ls \<Longrightarrow> currentSection st \<noteq> Critical \<Longrightarrow>
   critical (components (parse_lines st ls)) = critical (components st)
   \<and> currentSection (parse_lines st ls) \<noteq> Critical"
proof (induction ls arbitrary: st)
  case Nil
  then show ?case by (simp add: parse_lines_Nil)
next
  case (Cons l ls)
  have "critical (components (parse_line st l)) = critical (components st)
        \<and> currentSection (parse_line st l) \<noteq> Critical"
    using Cons.prems by (auto simp: parse_line_def Let_def split: note_section.splits)
  then show ?case using Cons.IH [of "parse_line st l"] Cons.prems(1)
    by (simp add: parse_lines_Cons)
qed

lemma no_related_capture:
  "list_all (\<lambda>l. trim l \<noteq> hdr_related) ls \<Longrightarrow> currentSection st \<noteq> Related \<Longrightarrow>
   links (components (parse_lines st ls)) = links (components st)
   \<and> currentSection (parse_lines st ls) \<noteq> Related"
proof (induction ls arbitrary: st)
  case Nil
  then show ?case by (simp add: parse_lines_Nil)
next
  case (Cons l ls)
  have "links (components (parse_line st l)) = links (components st)
        \<and> currentSection (parse_line st l) \<noteq> Related"
    using Cons.prems by (auto simp: parse_line_def Let_def split: note_section.splits)
  then show ?case using Cons.IH [of "parse_line st l"] Cons.prems(1)
    by (simp add: parse_lines_Cons)
qed

lemma parse_finish_fields:
  "critical (parse_finish st) = critical (components st)"
  "links (parse_finish st) = links (components st)"
  by (simp_all add: parse_finish_def)

text \<open>
  C6, as the code has it. A header line followed only by blank lines up to the
  end of the input captures nothing: \<^verbatim>\<open>parseNotes\<close> returns what it returns
  for the text before that line. The corresponding field is absent when no
  earlier line is a header of the same kind.
\<close>

theorem trailing_header_no_capture:
  assumes "split_on nl input = pre @ h # post"
    and "trim h = hdr_critical \<or> trim h = hdr_related"
    and "list_all (\<lambda>l. trim l = []) post"
  shows "parseNotes (Some input) = parseNotes (Some (join [nl] pre))
     \<and> (trim h = hdr_critical \<and> list_all (\<lambda>l. trim l \<noteq> hdr_critical) pre
          \<longrightarrow> critical (parseNotes (Some input)) = None)
     \<and> (trim h = hdr_related \<and> list_all (\<lambda>l. trim l \<noteq> hdr_related) pre
          \<longrightarrow> links (parseNotes (Some input)) = None)"
proof -
  have "list_all (\<lambda>l. nl \<notin> set l) (pre @ h # post)"
    using split_on_nl_lines [of input] assms(1) by simp
  then have pre: "list_all (\<lambda>l. nl \<notin> set l) pre" by simp
  have p: "parseNotes (Some input) = parse_finish (parse_lines parse_init pre)"
    using assms by (simp add: parseNotes_Some trailing_header)
  have 1: "parseNotes (Some input) = parseNotes (Some (join [nl] pre))"
    using p pre by (simp add: parseNotes_join_lines)
  have 2: "critical (parseNotes (Some input)) = None"
    if "list_all (\<lambda>l. trim l \<noteq> hdr_critical) pre"
    using no_critical_capture [OF that, of parse_init] p
    by (simp add: parse_finish_fields parse_init_def empty_components_def)
  have 3: "links (parseNotes (Some input)) = None"
    if "list_all (\<lambda>l. trim l \<noteq> hdr_related) pre"
    using no_related_capture [OF that, of parse_init] p
    by (simp add: parse_finish_fields parse_init_def empty_components_def)
  show ?thesis using 1 2 3 by simp
qed

theorem trailing_header_no_capture_witness:
  "split_on nl (js ''Body\<newline>Related:\<newline>A\<newline> Critical:\<newline>  \<newline>'')
      = [js ''Body'', js ''Related:'', js ''A''] @ js '' Critical:'' # [js ''  '', js '''']
   \<and> trim (js '' Critical:'') = hdr_critical
   \<and> list_all (\<lambda>l. trim l = []) [js ''  '', js '''']
   \<and> list_all (\<lambda>l. trim l \<noteq> hdr_critical) [js ''Body'', js ''Related:'', js ''A'']
   \<and> parseNotes (Some (js ''Body\<newline>Related:\<newline>A\<newline> Critical:\<newline>  \<newline>''))
      = parseNotes (Some (js ''Body\<newline>Related:\<newline>A''))
   \<and> critical (parseNotes (Some (js ''Body\<newline>Related:\<newline>A\<newline> Critical:\<newline>  \<newline>''))) = None"
proof -
  have 1: "split_on nl (js ''Body\<newline>Related:\<newline>A\<newline> Critical:\<newline>  \<newline>'')
      = [js ''Body'', js ''Related:'', js ''A''] @ js '' Critical:'' # [js ''  '', js '''']"
    by (simp add: eval_defs)
  have 2: "trim (js '' Critical:'') = hdr_critical" by (simp add: eval_defs)
  have 3: "list_all (\<lambda>l. trim l = []) [js ''  '', js '''']" by (simp add: eval_defs)
  have 4: "list_all (\<lambda>l. trim l \<noteq> hdr_critical) [js ''Body'', js ''Related:'', js ''A'']"
    by (simp add: eval_defs)
  have 5: "join [nl] [js ''Body'', js ''Related:'', js ''A''] = js ''Body\<newline>Related:\<newline>A''"
    by (simp add: eval_defs)
  note t = trailing_header_no_capture [OF 1 disjI1 [OF 2] 3]
  have a: "parseNotes (Some (js ''Body\<newline>Related:\<newline>A\<newline> Critical:\<newline>  \<newline>''))
      = parseNotes (Some (js ''Body\<newline>Related:\<newline>A''))"
    using conjunct1 [OF t] by (simp only: 5)
  have b: "critical (parseNotes (Some (js ''Body\<newline>Related:\<newline>A\<newline> Critical:\<newline>  \<newline>''))) = None"
    using t 2 4 by blast
  show ?thesis using 1 2 3 4 a b by (intro conjI)
qed

text \<open>
  C6 as stated fails: the input ends with a \<open>Critical:\<close> header that nothing
  follows, and the critical field holds what an earlier header captured.
\<close>

theorem trailing_header_counterexample:
  "split_on nl (js ''Critical:\<newline>foo\<newline>Critical:'') = [js ''Critical:'', js ''foo'', js ''Critical:'']
   \<and> trim (js ''Critical:'') = hdr_critical
   \<and> critical (parseNotes (Some (js ''Critical:\<newline>foo\<newline>Critical:''))) = Some (js ''foo'')"
  by (simp add: eval_defs)


section \<open>Removing and adding links\<close>

lemma fmt_ok_links_update:
  "fmt_ok c \<Longrightarrow> opt_all (list_all good_token) L \<Longrightarrow> fmt_ok (c\<lparr>links := L\<rparr>)"
  by (simp add: fmt_ok_def)

lemma removeLink_components_links:
  "links (removeLink_components ns linkId) =
     (case links (parseNotes ns) of
        None \<Rightarrow> None
      | Some ls \<Rightarrow> if filter (\<lambda>id. id \<noteq> linkId) ls = [] then None
                  else Some (filter (\<lambda>id. id \<noteq> linkId) ls))"
  by (simp add: removeLink_components_def Let_def split: option.splits)

lemma removeLink_components_eq:
  "removeLink_components ns linkId
   = (parseNotes ns)\<lparr>links := links (removeLink_components ns linkId)\<rparr>"
  by (simp add: removeLink_components_def Let_def)

lemma fmt_ok_removeLink_components: "fmt_ok (removeLink_components ns linkId)"
proof -
  have "opt_all (list_all good_token) (links (parseNotes ns))"
    using fmt_ok_parseNotes [of ns] by (simp add: fmt_ok_def)
  then have "opt_all (list_all good_token) (links (removeLink_components ns linkId))"
    by (auto simp: removeLink_components_links list_all_iff split: option.splits)
  then show ?thesis
    using fmt_ok_links_update [OF fmt_ok_parseNotes]
    by (subst removeLink_components_eq) simp
qed

lemma removeLink_components_not_member:
  "linkId \<notin> set (or_empty (links (removeLink_components ns linkId)))"
  by (simp add: removeLink_components_links split: option.splits)

lemma or_empty_keep_links: "set (or_empty (keep_links L)) \<subseteq> set (or_empty L)"
  by (simp add: keep_links_def split: option.splits)

lemma format_lines_no_related:
  assumes "fmt_ok c" "links c = None"
  shows "list_all (\<lambda>l. trim l \<noteq> hdr_related) (split_on nl (formatNotes c))"
proof (cases "format_parts c = []")
  case True
  then show ?thesis using assms(1) hdr_not_Nil
    by (simp add: formatNotes_join trim_Nil)
next
  case False
  have ok: "trim l \<noteq> hdr_related" if "good_line l" for l
    using that by (simp add: good_line_def)
  have 1: "list_all (\<lambda>l. trim l \<noteq> hdr_related) (split_on nl s)" if "content c = Some s" for s
    using assms(1) that ok by (simp add: fmt_ok_def list_all_iff)
  have 2: "list_all (\<lambda>l. trim l \<noteq> hdr_related) (split_on nl (hdr_critical @ nl # k))"
    if "critical c = Some k" for k
  proof -
    have g: "good_line k" using assms(1) that by (simp add: fmt_ok_def)
    have "split_on nl (hdr_critical @ nl # k) = [hdr_critical, k]"
      using hdr_no_nl(1) good_line_nl [OF g] by (rule split_block)
    then show ?thesis using ok [OF g] by (simp add: hdr_trim hdr_distinct)
  qed
  have "list_all (list_all (\<lambda>l. trim l \<noteq> hdr_related)) (map (split_on nl) (format_parts c))"
    using 1 2 assms(2) by (simp add: format_parts_def split: option.splits)
  then have "\<forall>l \<in> \<Union> (set ` set (map (split_on nl) (format_parts c))). trim l \<noteq> hdr_related"
    by (auto simp: list_all_iff)
  moreover have "trim [] \<noteq> hdr_related" using hdr_not_Nil by (simp add: trim_Nil)
  ultimately have "\<forall>l \<in> set (join [[]] (map (split_on nl) (format_parts c))). trim l \<noteq> hdr_related"
    using set_join [of "[[]]" "map (split_on nl) (format_parts c)"] by auto
  then show ?thesis using False assms(1)
    by (simp add: formatNotes_join split_join_blank list_all_iff)
qed

text \<open>
  C7. \<^verbatim>\<open>removeLink\<close> formats the parsed record with the occurrences of the
  id filtered out of its links, and with no links field at all when nothing is
  left; the id is not among the links of the text it returns; when the links
  field is dropped, no line of the returned text reads as a \<open>Related:\<close>
  header; and the example of the specification evaluates to \<open>Content\<close>.
\<close>

theorem removeLink_removes:
  "links (removeLink_components ns linkId) =
     (case links (parseNotes ns) of
        None \<Rightarrow> None
      | Some ls \<Rightarrow> if filter (\<lambda>id. id \<noteq> linkId) ls = [] then None
                  else Some (filter (\<lambda>id. id \<noteq> linkId) ls))
   \<and> removeLink ns linkId
       = formatNotes ((parseNotes ns)\<lparr>links := links (removeLink_components ns linkId)\<rparr>)
   \<and> linkId \<notin> set (or_empty (links (parseNotes (Some (removeLink ns linkId)))))
   \<and> (links (removeLink_components ns linkId) = None
        \<longrightarrow> list_all (\<lambda>l. trim l \<noteq> hdr_related) (split_on nl (removeLink ns linkId)))
   \<and> removeLink (Some (js ''Content\<newline>\<newline>Related:\<newline>ABC'')) (js ''ABC'') = js ''Content''"
proof -
  have 2: "removeLink ns linkId
       = formatNotes ((parseNotes ns)\<lparr>links := links (removeLink_components ns linkId)\<rparr>)"
    using removeLink_components_eq [of ns linkId] by (simp add: removeLink_def)
  have "parseNotes (Some (removeLink ns linkId))
        = (removeLink_components ns linkId)\<lparr>links := keep_links (links (removeLink_components ns linkId))\<rparr>"
    unfolding removeLink_def using fmt_ok_removeLink_components by (rule parse_format)
  then have 3: "linkId \<notin> set (or_empty (links (parseNotes (Some (removeLink ns linkId)))))"
    using or_empty_keep_links [of "links (removeLink_components ns linkId)"]
      removeLink_components_not_member [of linkId ns] by auto
  have 4: "list_all (\<lambda>l. trim l \<noteq> hdr_related) (split_on nl (removeLink ns linkId))"
    if "links (removeLink_components ns linkId) = None"
    unfolding removeLink_def using fmt_ok_removeLink_components that
    by (rule format_lines_no_related)
  have 5: "removeLink (Some (js ''Content\<newline>\<newline>Related:\<newline>ABC'')) (js ''ABC'') = js ''Content''"
    by (simp add: eval_defs)
  show ?thesis using removeLink_components_links [of ns linkId] 2 3 4 5 by blast
qed

theorem removeLink_removes_witness:
  "links (parseNotes (Some (js ''Content\<newline>\<newline>Related:\<newline>ABC''))) = Some [js ''ABC'']
   \<and> links (removeLink_components (Some (js ''Content\<newline>\<newline>Related:\<newline>ABC'')) (js ''ABC'')) = None
   \<and> removeLink (Some (js ''Content\<newline>\<newline>Related:\<newline>ABC'')) (js ''ABC'') = js ''Content''
   \<and> list_all (\<lambda>l. trim l \<noteq> hdr_related)
        (split_on nl (removeLink (Some (js ''Content\<newline>\<newline>Related:\<newline>ABC'')) (js ''ABC'')))
   \<and> links (removeLink_components (Some (js ''Related:\<newline>ABC, DEF, GHI'')) (js ''DEF''))
        = Some [js ''ABC'', js ''GHI'']
   \<and> js ''DEF'' \<notin> set (or_empty (links (parseNotes (Some
        (removeLink (Some (js ''Related:\<newline>ABC, DEF, GHI'')) (js ''DEF''))))))"
proof -
  have 1: "links (parseNotes (Some (js ''Content\<newline>\<newline>Related:\<newline>ABC''))) = Some [js ''ABC'']"
    by (simp add: eval_defs)
  have 2: "links (removeLink_components (Some (js ''Content\<newline>\<newline>Related:\<newline>ABC'')) (js ''ABC'')) = None"
    by (simp add: eval_defs)
  have 3: "links (removeLink_components (Some (js ''Related:\<newline>ABC, DEF, GHI'')) (js ''DEF''))
        = Some [js ''ABC'', js ''GHI'']"
    by (simp add: eval_defs)
  note a = removeLink_removes [of "Some (js ''Content\<newline>\<newline>Related:\<newline>ABC'')" "js ''ABC''"]
  note b = removeLink_removes [of "Some (js ''Related:\<newline>ABC, DEF, GHI'')" "js ''DEF''"]
  show ?thesis using 1 2 3 a b by blast
qed

lemma first_seen_single: "first_seen xs = [h] \<Longrightarrow> set xs = {h}"
  using set_first_seen [of xs] by simp

lemma first_seen_Nil: "first_seen xs = [] \<longleftrightarrow> xs = []"
  by (cases xs) simp_all

lemma new_Set_snoc: "x \<notin> set xs \<Longrightarrow> new_Set (xs @ [x]) = first_seen xs @ [x]"
  by (simp add: new_Set_append ordered_union_def)

lemma good_tokens_first_seen: "list_all good_token xs \<Longrightarrow> list_all good_token (first_seen xs)"
  using set_first_seen [of xs] by (simp add: list_all_iff)

lemma opt_all_or_empty: "opt_all (list_all P) L \<Longrightarrow> list_all P (or_empty L)"
  by (cases L) simp_all

text \<open>
  C8, as the code has it. For an id that is non-empty, has no white space at
  either end and holds no comma and no line break, and that is not among the
  parsed links of the text, adding it and removing it again leaves the parsed
  content and critical unchanged and the set of parsed links the same,
  provided the parsed links are not just a header token.
\<close>

theorem addLink_removeLink:
  assumes "good_token x"
    and "x \<notin> set (or_empty (links (parseNotes ns)))"
    and "set (or_empty (links (parseNotes ns))) \<noteq> {hdr_critical}"
    and "set (or_empty (links (parseNotes ns))) \<noteq> {hdr_related}"
  shows "content (parseNotes (Some (removeLink (Some (addLink ns x)) x))) = content (parseNotes ns)
     \<and> critical (parseNotes (Some (removeLink (Some (addLink ns x)) x))) = critical (parseNotes ns)
     \<and> set (or_empty (links (parseNotes (Some (removeLink (Some (addLink ns x)) x)))))
         = set (or_empty (links (parseNotes ns)))"
proof -
  define c where "c = parseNotes ns"
  define ls where "ls = or_empty (links c)"
  define fs where "fs = first_seen ls"
  have okc: "fmt_ok c" unfolding c_def by (rule fmt_ok_parseNotes)
  have gl: "list_all good_token ls"
    using okc unfolding ls_def by (intro opt_all_or_empty) (simp add: fmt_ok_def)
  have gf: "list_all good_token fs" unfolding fs_def using gl by (rule good_tokens_first_seen)
  have xl: "x \<notin> set ls" using assms(2) by (simp add: ls_def c_def)
  have xf: "x \<notin> set fs" using xl by (simp add: fs_def set_first_seen)
  have nh: "\<not> lone_header fs"
    using assms(3,4) first_seen_single [of ls]
    by (auto simp: lone_header_def fs_def ls_def c_def)
  \<comment> \<open>after \<open>addLink\<close>\<close>
  have a: "addLink ns x = formatNotes (c\<lparr>links := Some (fs @ [x])\<rparr>)"
    using xl by (simp add: addLink_def Let_def c_def ls_def fs_def new_Set_snoc)
  have ok1: "fmt_ok (c\<lparr>links := Some (fs @ [x])\<rparr>)"
    using okc gf assms(1) by (intro fmt_ok_links_update) simp_all
  have p1: "parseNotes (Some (addLink ns x)) = c\<lparr>links := keep_links (Some (fs @ [x]))\<rparr>"
    using parse_format [OF ok1] by (simp add: a)
  \<comment> \<open>after \<open>removeLink\<close>\<close>
  have "filter (\<lambda>id. id \<noteq> x) (fs @ [x]) = fs" using xf by (auto simp: filter_id_conv)
  then have r: "removeLink_components (Some (addLink ns x)) x
      = c\<lparr>links := (if fs = [] then None else Some fs)\<rparr>"
    by (auto simp: removeLink_components_def p1 keep_links_def lone_header_def)
  have ok2: "fmt_ok (c\<lparr>links := (if fs = [] then None else Some fs)\<rparr>)"
    using okc gf by (intro fmt_ok_links_update) simp_all
  have "parseNotes (Some (removeLink (Some (addLink ns x)) x))
      = c\<lparr>links := keep_links (if fs = [] then None else Some fs)\<rparr>"
    using parse_format [OF ok2] by (simp add: removeLink_def r)
  also have "keep_links (if fs = [] then None else Some fs) = (if fs = [] then None else Some fs)"
    using nh by (simp add: keep_links_def)
  finally have p2: "parseNotes (Some (removeLink (Some (addLink ns x)) x))
      = c\<lparr>links := (if fs = [] then None else Some fs)\<rparr>" .
  have "set (or_empty (if fs = [] then None else Some fs)) = set ls"
    by (simp add: fs_def set_first_seen first_seen_Nil)
  then show ?thesis by (simp add: p2 c_def [symmetric] ls_def)
qed

theorem addLink_removeLink_witness:
  "good_token (js ''X'')
   \<and> js ''X'' \<notin> set (or_empty (links (parseNotes (Some (js ''Body\<newline>\<newline>Critical:\<newline>now\<newline>\<newline>Related:\<newline>A, B, A'')))))
   \<and> set (or_empty (links (parseNotes (Some (js ''Body\<newline>\<newline>Critical:\<newline>now\<newline>\<newline>Related:\<newline>A, B, A''))))) \<noteq> {hdr_critical}
   \<and> set (or_empty (links (parseNotes (Some (js ''Body\<newline>\<newline>Critical:\<newline>now\<newline>\<newline>Related:\<newline>A, B, A''))))) \<noteq> {hdr_related}
   \<and> content (parseNotes (Some (removeLink (Some (addLink (Some (js ''Body\<newline>\<newline>Critical:\<newline>now\<newline>\<newline>Related:\<newline>A, B, A'')) (js ''X''))) (js ''X''))))
       = Some (js ''Body'')
   \<and> critical (parseNotes (Some (removeLink (Some (addLink (Some (js ''Body\<newline>\<newline>Critical:\<newline>now\<newline>\<newline>Related:\<newline>A, B, A'')) (js ''X''))) (js ''X''))))
       = Some (js ''now'')
   \<and> set (or_empty (links (parseNotes (Some (removeLink (Some (addLink (Some (js ''Body\<newline>\<newline>Critical:\<newline>now\<newline>\<newline>Related:\<newline>A, B, A'')) (js ''X''))) (js ''X''))))))
       = {js ''A'', js ''B''}"
proof -
  let ?n = "Some (js ''Body\<newline>\<newline>Critical:\<newline>now\<newline>\<newline>Related:\<newline>A, B, A'')"
  have p: "parseNotes ?n = \<lparr>content = Some (js ''Body''), critical = Some (js ''now''),
      links = Some [js ''A'', js ''B'', js ''A'']\<rparr>"
    by (simp add: eval_defs)
  have 1: "good_token (js ''X'')" by (simp add: good_token_def eval_defs)
  have 2: "js ''X'' \<notin> set (or_empty (links (parseNotes ?n)))"
    unfolding p by (simp add: js_def)
  have 3: "set (or_empty (links (parseNotes ?n))) \<noteq> {hdr_critical}"
    unfolding p by (simp add: js_def hdr_critical_def)
  have 4: "set (or_empty (links (parseNotes ?n))) \<noteq> {hdr_related}"
    unfolding p by (simp add: js_def hdr_related_def)
  note t = addLink_removeLink [OF 1 2 3 4]
  have 5: "set (or_empty (links (parseNotes ?n))) = {js ''A'', js ''B''}"
    unfolding p by auto
  show ?thesis using 1 2 3 4 t unfolding 5 unfolding p by simp
qed

text \<open>
  C8 as stated fails: the id \<open>a,b\<close> is not among the links of the absent text;
  once added it is read back as the two ids \<open>a\<close> and \<open>b\<close>, which removing
  \<open>a,b\<close> leaves in place.
\<close>

theorem addLink_removeLink_counterexample:
  "js ''a,b'' \<notin> set (or_empty (links (parseNotes None)))
   \<and> addLink None (js ''a,b'') = js ''Related:\<newline>a,b''
   \<and> removeLink (Some (addLink None (js ''a,b''))) (js ''a,b'') = js ''Related:\<newline>a, b''
   \<and> links (parseNotes (Some (removeLink (Some (addLink None (js ''a,b''))) (js ''a,b''))))
       = Some [js ''a'', js ''b'']
   \<and> links (parseNotes None) = None"
  by (simp add: eval_defs)

end
